theory Spec2Isabelle
  imports Complex_Main
begin

section \<open>Python values handled by the output writer\<close>

text \<open>
  Output times are Python floats. The scheduler only compares them (it does no arithmetic),
  so a finite float is modelled by the real number it denotes; the two infinities and NaN
  are kept as separate values because the comparisons of the source treat them specially:
  every comparison with NaN is false. Positive and negative zero compare equal in Python and
  are both \<open>Finite 0\<close>. A decimal literal such as \<open>0.9\<close> is written as the
  fraction \<open>9 / 10\<close>: rounding to the nearest double keeps the order of the literals
  used below.
\<close>

datatype pyfloat = NegInf | Finite real | PosInf | NaN

text \<open>Python \<open>a <= b\<close>.\<close>

fun fle :: "pyfloat \<Rightarrow> pyfloat \<Rightarrow> bool" where
  "fle NaN y = False"
| "fle x NaN = False"
| "fle NegInf y = True"
| "fle x PosInf = True"
| "fle (Finite a) (Finite b) = (a \<le> b)"
| "fle x y = False"

text \<open>Python \<open>a < b\<close>.\<close>

fun flt :: "pyfloat \<Rightarrow> pyfloat \<Rightarrow> bool" where
  "flt NaN y = False"
| "flt x NaN = False"
| "flt x NegInf = False"
| "flt PosInf y = False"
| "flt (Finite a) (Finite b) = (a < b)"
| "flt x y = True"

text \<open>Python \<open>a == b\<close>.\<close>

fun feq :: "pyfloat \<Rightarrow> pyfloat \<Rightarrow> bool" where
  "feq NegInf NegInf = True"
| "feq PosInf PosInf = True"
| "feq (Finite a) (Finite b) = (a = b)"
| "feq x y = False"

text \<open>Python \<open>a > b\<close> and \<open>a >= b\<close>.\<close>

definition fgt :: "pyfloat \<Rightarrow> pyfloat \<Rightarrow> bool" where
  "fgt a b = flt b a"

definition fge :: "pyfloat \<Rightarrow> pyfloat \<Rightarrow> bool" where
  "fge a b = fle b a"

fun is_nan :: "pyfloat \<Rightarrow> bool" where
  "is_nan NaN = True"
| "is_nan x = False"

text \<open>
  What a times iterator may hand over: \<open>None\<close>, a float, or any other object (an int, a
  string, ...), for which \<open>isinstance(x, float)\<close> is false.
\<close>

datatype pyval = PyNone | PyFloat pyfloat | PyOther

text \<open>One call of \<open>__next__\<close>: the iterator raises \<open>StopIteration\<close> or yields a value.\<close>

datatype item = StopIteration | Yield pyval

text \<open>
  The attribute \<open>_times_iter\<close>: \<open>None\<close> until \<open>register_times_iter\<close> is called, an
  object without \<open>__next__\<close>, or an iterator. An iterator is the (possibly infinite)
  sequence of the outcomes of its \<open>__next__\<close> calls, together with the number of calls
  made so far.
\<close>

datatype times_source = NotRegistered | NoNextAttr | Iterator "nat \<Rightarrow> item" nat

text \<open>The iterator \<open>iter(xs)\<close> of a Python list.\<close>

definition iter_of :: "pyval list \<Rightarrow> nat \<Rightarrow> item" where
  "iter_of xs = (\<lambda>i. if i < length xs then Yield (xs ! i) else StopIteration)"

definition floats :: "real list \<Rightarrow> pyval list" where
  "floats rs = map (\<lambda>r. PyFloat (Finite r)) rs"

text \<open>Python \<open>next(it, None)\<close>: the default \<open>None\<close> replaces \<open>StopIteration\<close>.\<close>

definition next_default :: "(nat \<Rightarrow> item) \<Rightarrow> nat \<Rightarrow> pyval" where
  "next_default f i = (case f i of StopIteration \<Rightarrow> PyNone | Yield v \<Rightarrow> v)"

section \<open>Errors and warnings\<close>

datatype error = AssertionError string | RecursionError string | TypeError string

text \<open>
  \<open>OutputIteratorSkipWarning.get_message\<close> joins two f-strings. The formatting of a float
  is left abstract: a message is the list of its literal pieces and formatted values.
\<close>

datatype msg_part = Lit string | Fmt pyfloat

definition get_message :: "pyfloat \<Rightarrow> pyfloat \<Rightarrow> msg_part list" where
  "get_message next_time prev_time =
     [Lit ''Next output time '', Fmt next_time, Lit '' is <= ''] @
     [Lit ''previous output time '', Fmt prev_time, Lit ''. Skipping...'']"

datatype warning = OutputIteratorSkipWarning "msg_part list"

section \<open>GenericOutputWriter\<close>

text \<open>
  The fields of a \<open>GenericOutputWriter\<close> that the scheduler and the file registry use.
  \<open>clock_stop\<close> is \<open>model.clock.stop\<close>, which the writer only reads: the clock
  belongs to the model, and its stop time is any float here. \<open>warnings\<close> is the log of
  the calls of \<open>warnings.warn\<close>, oldest first.
\<close>

record writer =
  save_first_timestep :: bool
  save_last_timestep :: bool
  times_iter :: times_source
  next_output_time :: "pyfloat option"
  prev_output_time :: "pyfloat option"
  is_exhausted :: bool
  output_filepaths :: "string list"
  clock_stop :: pyfloat
  warnings :: "warning list"

text \<open>\<open>__init__\<close>, for a model whose clock stops at \<open>stop\<close>.\<close>

definition init :: "pyfloat \<Rightarrow> bool \<Rightarrow> bool \<Rightarrow> writer" where
  "init stop save_first save_last =
     \<lparr> save_first_timestep = save_first,
       save_last_timestep = save_last,
       times_iter = NotRegistered,
       next_output_time = None,
       prev_output_time = None,
       is_exhausted = False,
       output_filepaths = [],
       clock_stop = stop,
       warnings = [] \<rparr>"

definition register_times_iter :: "times_source \<Rightarrow> writer \<Rightarrow> writer" where
  "register_times_iter it w = w\<lparr>times_iter := it\<rparr>"

definition warn :: "warning \<Rightarrow> writer \<Rightarrow> writer" where
  "warn x w = w\<lparr>warnings := warnings w @ [x]\<rparr>"

text \<open>
  \<open>_advance_iter_recursive\<close>. The result is what the call returns or raises, with the
  writer as the call leaves it (an exception does not undo the mutations made before it).
\<close>

fun advance_iter_recursive :: "nat \<Rightarrow> writer \<Rightarrow> (error + pyfloat option) \<times> writer" where
  "advance_iter_recursive recursion_counter w =
     (if save_first_timestep w then
        (Inr (Some (Finite 0)), w\<lparr>save_first_timestep := False\<rparr>)
      else
        case times_iter w of
          NotRegistered \<Rightarrow> (Inl (TypeError ''NoneType object is not an iterator''), w)
        | NoNextAttr \<Rightarrow> (Inl (TypeError ''object is not an iterator''), w)
        | Iterator f i \<Rightarrow>
            (let next_time = next_default f i;
                 w1 = w\<lparr>times_iter := Iterator f (Suc i)\<rparr>;
                 prev_time = prev_output_time w1;
                 model_stop_time = clock_stop w1
             in case next_time of
                  PyNone \<Rightarrow>
                    (if save_last_timestep w1 then
                       (case prev_time of
                          None \<Rightarrow> (Inr (Some model_stop_time), w1)
                        | Some p \<Rightarrow>
                            if flt p model_stop_time then (Inr (Some model_stop_time), w1)
                            else (Inr None, w1))
                     else (Inr None, w1))
                | PyOther \<Rightarrow>
                    (Inl (AssertionError
                       ''The output time iterator needs to generate float values.''), w1)
                | PyFloat t \<Rightarrow>
                    if fgt t model_stop_time then
                      (if save_last_timestep w1 then
                         (case prev_time of
                            None \<Rightarrow> (Inr (Some model_stop_time), w1)
                          | Some p \<Rightarrow>
                              if flt p model_stop_time then (Inr (Some model_stop_time), w1)
                              else (Inr None, w1))
                       else (Inr None, w1))
                    else
                      (case prev_time of
                         None \<Rightarrow> (Inr (Some t), w1)
                       | Some p \<Rightarrow>
                           if fge p t then
                             (if recursion_counter > 0 then
                                advance_iter_recursive (recursion_counter - 1)
                                  (if \<not> (feq p (Finite 0) \<and> feq t (Finite 0))
                                   then warn (OutputIteratorSkipWarning (get_message t p)) w1
                                   else w1)
                              else (Inl (RecursionError ''Too many output times skipped.''), w1))
                           else (Inr (Some t), w1))))"

text \<open>
  The end of \<open>advance_iter\<close> (``Check if the writer has become exhausted'' and ``Save and
  return the next time''), applied to what the first part of the method produced: an
  exception propagates, a value is stored in \<open>_next_output_time\<close> and returned.
\<close>

definition save_next :: "(error + pyfloat option) \<times> writer \<Rightarrow> (error + pyfloat option) \<times> writer" where
  "save_next x =
     (case x of
        (Inl e, w') \<Rightarrow> (Inl e, w')
      | (Inr next_time, w') \<Rightarrow>
          (Inr next_time,
           (if next_time = None then w'\<lparr>is_exhausted := True\<rparr> else w')
             \<lparr>next_output_time := next_time\<rparr>))"

text \<open>\<open>advance_iter\<close>; the default \<open>recursion_counter\<close> is 5.\<close>

definition advance_iter :: "writer \<Rightarrow> (error + pyfloat option) \<times> writer" where
  "advance_iter w =
     (case times_iter w of
        NotRegistered \<Rightarrow>
          (Inl (AssertionError ''An output time iterator has not been registered!.''), w)
      | NoNextAttr \<Rightarrow>
          (Inl (AssertionError ''The output time iterator needs a __next__ function''), w)
      | Iterator f i \<Rightarrow>
          if is_exhausted w then
            (if next_output_time w = None then (Inr None, w)
             else (Inl (AssertionError []), w))
          else
            (case next_output_time w of
               None \<Rightarrow> save_next (advance_iter_recursive 5 w)
             | Some t \<Rightarrow>
                 if \<not> fle t (clock_stop w) then (Inl (AssertionError []), w)
                 else if feq t (clock_stop w) then
                   save_next (Inr None, w\<lparr>prev_output_time := Some t\<rparr>)
                 else
                   save_next (advance_iter_recursive 5 (w\<lparr>prev_output_time := Some t\<rparr>))))"

text \<open>A driver making \<open>n\<close> successive calls of \<open>advance_iter\<close>, stopped by the first
  exception; it collects the returned values.\<close>

fun advances :: "nat \<Rightarrow> writer \<Rightarrow> (error + pyfloat option list) \<times> writer" where
  "advances 0 w = (Inr [], w)"
| "advances (Suc n) w =
     (case advance_iter w of
        (Inl e, w') \<Rightarrow> (Inl e, w')
      | (Inr r, w') \<Rightarrow>
          (case advances n w' of
             (Inl e, w'') \<Rightarrow> (Inl e, w'')
           | (Inr rs, w'') \<Rightarrow> (Inr (r # rs), w'')))"

text \<open>The values other than \<open>None\<close> among the results of successive calls.\<close>

fun returned_times :: "pyfloat option list \<Rightarrow> pyfloat list" where
  "returned_times [] = []"
| "returned_times (None # rs) = returned_times rs"
| "returned_times (Some t # rs) = t # returned_times rs"

text \<open>A writer as a test builds it: constructed, then given the iterator of a list.\<close>

definition scheduler :: "pyval list \<Rightarrow> pyfloat \<Rightarrow> bool \<Rightarrow> bool \<Rightarrow> writer" where
  "scheduler xs stop save_first save_last =
     register_times_iter (Iterator (iter_of xs) 0) (init stop save_first save_last)"

text \<open>
  The conditions of \<open>advance_iter\<close> under which a call on a writer with a registered
  iterator pulls from it: the writer is not exhausted, \<open>save_first_timestep\<close> is not
  pending, and a pending \<open>next_output_time\<close> passes the assertion and is not the stop
  time.
\<close>

definition pulls_source :: "writer \<Rightarrow> bool" where
  "pulls_source w \<longleftrightarrow>
     \<not> is_exhausted w \<and> \<not> save_first_timestep w \<and>
     (case next_output_time w of
        None \<Rightarrow> True
      | Some t \<Rightarrow> fle t (clock_stop w) \<and> \<not> feq t (clock_stop w))"

text \<open>
  \<open>skipped f i prev stop k\<close>: the \<open>k\<close> values of the iterator \<open>f\<close> from position
  \<open>i\<close> on are candidates that the resolution algorithm skips, namely floats that are not
  above the stop time and not above the previous output time \<open>prev\<close> (equal counts).
\<close>

fun skipped :: "(nat \<Rightarrow> item) \<Rightarrow> nat \<Rightarrow> pyfloat option \<Rightarrow> pyfloat \<Rightarrow> nat \<Rightarrow> bool" where
  "skipped f i prev stop 0 = True"
| "skipped f i prev stop (Suc k) =
     (case next_default f i of
        PyFloat t \<Rightarrow>
          (case prev of
             None \<Rightarrow> False
           | Some p \<Rightarrow> \<not> fgt t stop \<and> fge p t \<and> skipped f (Suc i) prev stop k)
      | PyNone \<Rightarrow> False
      | PyOther \<Rightarrow> False)"

subsection \<open>File registry\<close>

definition is_file_registered :: "string \<Rightarrow> writer \<Rightarrow> bool" where
  "is_file_registered filepath w = (filepath \<in> set (output_filepaths w))"

definition register_output_filepath :: "string \<Rightarrow> writer \<Rightarrow> writer" where
  "register_output_filepath filepath w =
     (if \<not> is_file_registered filepath w
      then w\<lparr>output_filepaths := output_filepaths w @ [filepath]\<rparr>
      else w)"

subsection \<open>The invariant of the scheduler\<close>

text \<open>
  The last time handed out: the pending \<open>next_output_time\<close>, or, once the writer is
  exhausted, \<open>prev_output_time\<close>. It is the value that \<open>advance_iter\<close> has in
  \<open>prev_output_time\<close> when it calls the resolution algorithm.
\<close>

definition last_out :: "writer \<Rightarrow> pyfloat option" where
  "last_out w = (case next_output_time w of Some t \<Rightarrow> Some t | None \<Rightarrow> prev_output_time w)"

text \<open>
  What holds of a writer between two calls of \<open>advance_iter\<close>, for the iterator
  \<open>f\<close>: a pending \<open>save_first_timestep\<close> means nothing was handed out yet; the
  previous output time is not NaN; a pending time is above the previous one.
\<close>

definition sched_inv :: "(nat \<Rightarrow> item) \<Rightarrow> writer \<Rightarrow> bool" where
  "sched_inv f w \<longleftrightarrow>
     (\<exists>i. times_iter w = Iterator f i) \<and>
     (save_first_timestep w \<longrightarrow> prev_output_time w = None \<and> next_output_time w = None) \<and>
     (\<forall>p. prev_output_time w = Some p \<longrightarrow> \<not> is_nan p) \<and>
     (\<forall>t. next_output_time w = Some t \<longrightarrow>
        \<not> is_exhausted w \<and> (\<forall>p. prev_output_time w = Some p \<longrightarrow> flt p t))"

section \<open>Comparisons of floats\<close>

lemma flt_trans: "flt a b \<Longrightarrow> flt b c \<Longrightarrow> flt a c"
  by (cases a; cases b; cases c) auto

lemma flt_imp_fle: "flt a b \<Longrightarrow> fle a b"
  by (cases a; cases b) auto

lemma flt_irrefl: "\<not> flt a a"
  by (cases a) auto

lemma flt_not_feq: "flt a b \<Longrightarrow> \<not> feq b a"
  by (cases a; cases b) auto

lemma fle_refl: "\<not> is_nan a \<Longrightarrow> fle a a"
  by (cases a) auto

lemma feq_imp_fle: "feq a b \<Longrightarrow> fle a b"
  by (cases a; cases b) auto

lemma fle_not_nan: "fle a b \<Longrightarrow> \<not> is_nan a \<and> \<not> is_nan b"
  by (cases a; cases b) auto

lemma fle_stop: "\<not> is_nan stop \<Longrightarrow> t \<noteq> NaN \<Longrightarrow> \<not> fgt t stop \<Longrightarrow> fle t stop"
  by (cases t; cases stop) (auto simp: fgt_def)

lemma flt_prev: "\<not> is_nan p \<Longrightarrow> t \<noteq> NaN \<Longrightarrow> \<not> fge p t \<Longrightarrow> flt p t"
  by (cases t; cases p) (auto simp: fge_def)

lemma not_fge_not_feq: "\<not> fge p t \<Longrightarrow> \<not> feq t p"
  by (cases t; cases p) (auto simp: fge_def)

section \<open>The resolution algorithm\<close>

declare advance_iter_recursive.simps [simp del]

lemma next_default_float: "next_default f j = PyFloat t \<Longrightarrow> f j = Yield (PyFloat t)"
  by (auto simp: next_default_def split: item.splits)

text \<open>The pending \<open>save_first_timestep\<close> answers without a pull.\<close>

lemma air_flag:
  "save_first_timestep w \<Longrightarrow>
     advance_iter_recursive n w = (Inr (Some (Finite 0)), w\<lparr>save_first_timestep := False\<rparr>)"
  by (subst advance_iter_recursive.simps) simp

text \<open>A skipped value, while the budget lasts: the call goes on with the next pull.\<close>

lemma air_skip:
  "\<not> save_first_timestep w \<Longrightarrow> times_iter w = Iterator f i \<Longrightarrow>
   next_default f i = PyFloat t \<Longrightarrow> \<not> fgt t (clock_stop w) \<Longrightarrow>
   prev_output_time w = Some p \<Longrightarrow> fge p t \<Longrightarrow>
     advance_iter_recursive (Suc n) w =
       advance_iter_recursive n
         (if \<not> (feq p (Finite 0) \<and> feq t (Finite 0))
          then warn (OutputIteratorSkipWarning (get_message t p))
                 (w\<lparr>times_iter := Iterator f (Suc i)\<rparr>)
          else w\<lparr>times_iter := Iterator f (Suc i)\<rparr>)"
  by (subst advance_iter_recursive.simps) (simp add: Let_def)

text \<open>In every other case the call ends after its pull.\<close>

lemma air_no_skip:
  "\<not> save_first_timestep w \<Longrightarrow> times_iter w = Iterator f i \<Longrightarrow>
   \<not> (\<exists>t p. next_default f i = PyFloat t \<and> \<not> fgt t (clock_stop w) \<and>
           prev_output_time w = Some p \<and> fge p t \<and> 0 < n) \<Longrightarrow>
     snd (advance_iter_recursive n w) = w\<lparr>times_iter := Iterator f (Suc i)\<rparr>"
  by (subst advance_iter_recursive.simps)
     (auto simp: Let_def split: pyval.splits option.splits)

text \<open>What the algorithm leaves alone.\<close>

lemma air_frame:
  "advance_iter_recursive n w = (r, w') \<Longrightarrow>
     clock_stop w' = clock_stop w \<and> prev_output_time w' = prev_output_time w \<and>
     next_output_time w' = next_output_time w \<and> is_exhausted w' = is_exhausted w \<and>
     save_last_timestep w' = save_last_timestep w \<and>
     output_filepaths w' = output_filepaths w \<and> \<not> save_first_timestep w'"
proof (induction n arbitrary: w)
  case 0
  then show ?case
    by (subst (asm) advance_iter_recursive.simps)
       (auto simp: Let_def split: if_splits times_source.splits pyval.splits option.splits)
next
  case (Suc n)
  from Suc.prems show ?case
    by (subst (asm) advance_iter_recursive.simps)
       (auto simp: Let_def warn_def
             split: if_splits times_source.splits pyval.splits option.splits
             dest!: Suc.IH)
qed

text \<open>The iterator only moves forward, and does move unless the flag answered.\<close>

lemma air_position:
  "advance_iter_recursive n w = (r, w') \<Longrightarrow> times_iter w = Iterator f i \<Longrightarrow>
     \<exists>j. times_iter w' = Iterator f j \<and> (if save_first_timestep w then j = i else i < j)"
proof (induction n arbitrary: w i)
  case 0
  then show ?case
    by (subst (asm) advance_iter_recursive.simps)
       (auto simp: Let_def split: if_splits times_source.splits pyval.splits option.splits)
next
  case (Suc n)
  from Suc.prems show ?case
    by (subst (asm) advance_iter_recursive.simps)
       (fastforce simp: Let_def warn_def
             split: if_splits times_source.splits pyval.splits option.splits
             dest!: Suc.IH)
qed

text \<open>
  The outcome of a call is decided by the last value it pulled: when the call leaves the
  iterator behind position \<open>j\<close>, having pulled at least once, the value at \<open>j\<close> tells
  what was returned or raised.
\<close>

lemma air_last_pull:
  "advance_iter_recursive n w = (r, w') \<Longrightarrow> times_iter w = Iterator f i \<Longrightarrow>
   times_iter w' = Iterator f (Suc j) \<Longrightarrow> i \<le> j \<Longrightarrow>
     (case next_default f j of
        PyNone \<Rightarrow>
          r = Inr (if save_last_timestep w \<and>
                      (case prev_output_time w of None \<Rightarrow> True
                       | Some p \<Rightarrow> flt p (clock_stop w))
                   then Some (clock_stop w) else None)
      | PyOther \<Rightarrow>
          r = Inl (AssertionError ''The output time iterator needs to generate float values.'')
      | PyFloat t \<Rightarrow>
          if fgt t (clock_stop w) then
            r = Inr (if save_last_timestep w \<and>
                        (case prev_output_time w of None \<Rightarrow> True
                         | Some p \<Rightarrow> flt p (clock_stop w))
                     then Some (clock_stop w) else None)
          else if (case prev_output_time w of None \<Rightarrow> False | Some p \<Rightarrow> fge p t) then
            r = Inl (RecursionError ''Too many output times skipped.'')
          else r = Inr (Some t))"
proof (induction n arbitrary: w i)
  case 0
  then show ?case
    by (subst (asm) advance_iter_recursive.simps)
       (auto simp: Let_def split: if_splits times_source.splits pyval.splits option.splits)
next
  case (Suc n)
  show ?case
  proof (cases "save_first_timestep w")
    case True
    with Suc.prems show ?thesis
      by (subst (asm) advance_iter_recursive.simps) auto
  next
    case noflag: False
    show ?thesis
    proof (cases "\<exists>t p. next_default f i = PyFloat t \<and> \<not> fgt t (clock_stop w) \<and>
                     prev_output_time w = Some p \<and> fge p t")
      case True
      then obtain t p where tp: "next_default f i = PyFloat t" "\<not> fgt t (clock_stop w)"
        "prev_output_time w = Some p" "fge p t" by blast
      define w2 where "w2 = (if \<not> (feq p (Finite 0) \<and> feq t (Finite 0))
          then warn (OutputIteratorSkipWarning (get_message t p))
                 (w\<lparr>times_iter := Iterator f (Suc i)\<rparr>)
          else w\<lparr>times_iter := Iterator f (Suc i)\<rparr>)"
      have rec: "advance_iter_recursive n w2 = (r, w')"
        using air_skip [OF noflag Suc.prems(2) tp, of n] Suc.prems(1) by (simp add: w2_def)
      have w2: "times_iter w2 = Iterator f (Suc i)" "\<not> save_first_timestep w2"
        "save_last_timestep w2 = save_last_timestep w"
        "prev_output_time w2 = prev_output_time w" "clock_stop w2 = clock_stop w"
        using noflag by (simp_all add: w2_def warn_def)
      from air_position [OF rec w2(1)] w2(2) Suc.prems(3) have "Suc i \<le> j" by auto
      from Suc.IH [OF rec w2(1) Suc.prems(3) this] show ?thesis
        by (simp only: w2)
    next
      case False
      with air_no_skip [OF noflag Suc.prems(2), of "Suc n"] Suc.prems(1,3)
      have ji: "j = i" by auto
      from Suc.prems(1) noflag Suc.prems(2) False show ?thesis
        unfolding ji
        by (subst (asm) advance_iter_recursive.simps)
           (auto simp: Let_def split: if_splits pyval.splits option.splits)
    qed
  qed
qed

text \<open>Where a returned time comes from: the flag, the stop time, or the source.\<close>

lemma air_some:
  assumes run: "advance_iter_recursive n w = (Inr (Some t), w')"
    and it: "times_iter w = Iterator f i"
  shows "(save_first_timestep w \<and> t = Finite 0) \<or>
         (t = clock_stop w \<and>
            (case prev_output_time w of None \<Rightarrow> True | Some p \<Rightarrow> flt p (clock_stop w))) \<or>
         ((\<exists>j. f j = Yield (PyFloat t)) \<and> \<not> fgt t (clock_stop w) \<and>
            (case prev_output_time w of None \<Rightarrow> True | Some p \<Rightarrow> \<not> fge p t))"
proof (cases "save_first_timestep w")
  case True
  with run show ?thesis by (simp add: air_flag)
next
  case False
  with air_position [OF run it] obtain j where j: "times_iter w' = Iterator f (Suc j)" "i \<le> j"
    by (auto simp: less_eq_Suc_le dest: Suc_le_D)
  from air_last_pull [OF run it j] show ?thesis
    by (auto split: pyval.splits if_splits option.splits dest: next_default_float)
qed

text \<open>A returned time is above the previous one, for a source free of NaN.\<close>

lemma air_some_above:
  assumes run: "advance_iter_recursive n w = (Inr (Some t), w')"
    and it: "times_iter w = Iterator f i"
    and nonan: "\<forall>j. f j \<noteq> Yield (PyFloat NaN)"
    and flag: "save_first_timestep w \<longrightarrow> prev_output_time w = None"
    and prev: "\<forall>p. prev_output_time w = Some p \<longrightarrow> \<not> is_nan p"
  shows "\<forall>p. prev_output_time w = Some p \<longrightarrow> flt p t"
proof -
  from air_some [OF run it] consider
      (first) "save_first_timestep w" "t = Finite 0"
    | (final) "t = clock_stop w"
        "case prev_output_time w of None \<Rightarrow> True | Some p \<Rightarrow> flt p (clock_stop w)"
    | (source) j where "f j = Yield (PyFloat t)" "\<not> fgt t (clock_stop w)"
        "case prev_output_time w of None \<Rightarrow> True | Some p \<Rightarrow> \<not> fge p t"
    by blast
  then show ?thesis
  proof cases
    case first
    with flag show ?thesis by simp
  next
    case final
    then show ?thesis by auto
  next
    case source
    from source(1) nonan have "t \<noteq> NaN" by metis
    with source(3) prev show ?thesis
      by (auto simp: flt_prev)
  qed
qed

text \<open>
  A returned time is at most the stop time, when neither the source nor the stop time is
  NaN and the stop time is not below zero while the flag is pending.
\<close>

lemma air_some_le:
  assumes run: "advance_iter_recursive n w = (Inr (Some t), w')"
    and it: "times_iter w = Iterator f i"
    and nonan: "\<forall>j. f j \<noteq> Yield (PyFloat NaN)" "\<not> is_nan (clock_stop w)"
    and flag: "save_first_timestep w \<longrightarrow> fle (Finite 0) (clock_stop w)"
  shows "fle t (clock_stop w)"
proof -
  from air_some [OF run it] consider
      (first) "save_first_timestep w" "t = Finite 0"
    | (final) "t = clock_stop w"
    | (source) j where "f j = Yield (PyFloat t)" "\<not> fgt t (clock_stop w)"
    by blast
  then show ?thesis
  proof cases
    case first
    with flag show ?thesis by simp
  next
    case final
    with nonan(2) show ?thesis by (simp add: fle_refl)
  next
    case source
    from source(1) nonan(1) have "t \<noteq> NaN" by metis
    with source(2) nonan(2) show ?thesis by (simp add: fle_stop)
  qed
qed

text \<open>A call ends at the end of the source and at a value above the stop time.\<close>

lemma air_end:
  assumes "\<not> save_first_timestep w" and "times_iter w = Iterator f i"
    and "next_default f i = PyNone \<or>
         (\<exists>t. next_default f i = PyFloat t \<and> fgt t (clock_stop w))"
  shows "advance_iter_recursive n w =
           (Inr (if save_last_timestep w \<and>
                    (case prev_output_time w of None \<Rightarrow> True
                     | Some p \<Rightarrow> flt p (clock_stop w))
                 then Some (clock_stop w) else None),
            w\<lparr>times_iter := Iterator f (Suc i)\<rparr>)"
  using assms
  by (subst advance_iter_recursive.simps) (auto simp: Let_def split: option.splits)

text \<open>
  A run of \<open>k\<close> skipped values uses \<open>k\<close> of the budget: the call goes on behind them,
  with nothing changed but the position of the iterator and the warnings.
\<close>

lemma air_skipped:
  "\<not> save_first_timestep w \<Longrightarrow> times_iter w = Iterator f i \<Longrightarrow>
   skipped f i (prev_output_time w) (clock_stop w) k \<Longrightarrow>
     \<exists>ws. advance_iter_recursive (k + n) w =
            advance_iter_recursive n
              (w\<lparr>times_iter := Iterator f (i + k), warnings := warnings w @ ws\<rparr>)"
proof (induction k arbitrary: w i)
  case 0
  have "w\<lparr>times_iter := Iterator f (i + 0), warnings := warnings w @ []\<rparr> = w"
    using "0.prems"(2) by simp
  then show ?case by (intro exI [of _ "[]"]) simp
next
  case (Suc k)
  from Suc.prems(3) obtain t p where tp: "next_default f i = PyFloat t"
    "prev_output_time w = Some p" "\<not> fgt t (clock_stop w)" "fge p t"
    and rest: "skipped f (Suc i) (prev_output_time w) (clock_stop w) k"
    by (auto split: pyval.splits option.splits)
  define w2 where "w2 = (if \<not> (feq p (Finite 0) \<and> feq t (Finite 0))
      then warn (OutputIteratorSkipWarning (get_message t p))
             (w\<lparr>times_iter := Iterator f (Suc i)\<rparr>)
      else w\<lparr>times_iter := Iterator f (Suc i)\<rparr>)"
  have step: "advance_iter_recursive (Suc (k + n)) w = advance_iter_recursive (k + n) w2"
    using air_skip [OF Suc.prems(1,2) tp(1,3,2,4), of "k + n"] by (simp add: w2_def)
  have w2: "\<not> save_first_timestep w2" "times_iter w2 = Iterator f (Suc i)"
    "prev_output_time w2 = prev_output_time w" "clock_stop w2 = clock_stop w"
    using Suc.prems(1) by (simp_all add: w2_def warn_def)
  from rest w2 have "skipped f (Suc i) (prev_output_time w2) (clock_stop w2) k" by simp
  from Suc.IH [OF w2(1,2) this] obtain ws where
    ih: "advance_iter_recursive (k + n) w2 =
           advance_iter_recursive n
             (w2\<lparr>times_iter := Iterator f (Suc i + k), warnings := warnings w2 @ ws\<rparr>)"
    by blast
  obtain ws' where "w2\<lparr>times_iter := Iterator f (Suc i + k), warnings := warnings w2 @ ws\<rparr> =
      w\<lparr>times_iter := Iterator f (i + Suc k), warnings := warnings w @ ws'\<rparr>"
    by (cases "\<not> (feq p (Finite 0) \<and> feq t (Finite 0))") (simp_all add: w2_def warn_def)
  with step ih show ?case by auto
qed

text \<open>
  The budget: a call with budget \<open>n\<close> raises \<open>RecursionError\<close> exactly when the next
  \<open>n + 1\<close> values are all skipped.
\<close>

lemma air_recursion_error_iff:
  "\<not> save_first_timestep w \<Longrightarrow> times_iter w = Iterator f i \<Longrightarrow>
     fst (advance_iter_recursive n w) = Inl (RecursionError ''Too many output times skipped.'')
       \<longleftrightarrow> skipped f i (prev_output_time w) (clock_stop w) (Suc n)"
proof (induction n arbitrary: w i)
  case 0
  then show ?case
    by (subst advance_iter_recursive.simps)
       (auto simp: Let_def split: pyval.splits option.splits)
next
  case (Suc n)
  show ?case
  proof (cases "\<exists>t p. next_default f i = PyFloat t \<and> \<not> fgt t (clock_stop w) \<and>
                   prev_output_time w = Some p \<and> fge p t")
    case True
    then obtain t p where tp: "next_default f i = PyFloat t" "\<not> fgt t (clock_stop w)"
      "prev_output_time w = Some p" "fge p t" by blast
    define w2 where "w2 = (if \<not> (feq p (Finite 0) \<and> feq t (Finite 0))
        then warn (OutputIteratorSkipWarning (get_message t p))
               (w\<lparr>times_iter := Iterator f (Suc i)\<rparr>)
        else w\<lparr>times_iter := Iterator f (Suc i)\<rparr>)"
    have step: "advance_iter_recursive (Suc n) w = advance_iter_recursive n w2"
      using air_skip [OF Suc.prems tp, of n] by (simp add: w2_def)
    have w2: "\<not> save_first_timestep w2" "times_iter w2 = Iterator f (Suc i)"
      "prev_output_time w2 = prev_output_time w" "clock_stop w2 = clock_stop w"
      using Suc.prems(1) by (simp_all add: w2_def warn_def)
    from Suc.IH [OF w2(1,2)] step tp show ?thesis
      by (simp add: w2)
  next
    case False
    with Suc.prems show ?thesis
      by (subst advance_iter_recursive.simps)
         (auto simp: Let_def split: pyval.splits option.splits)
  qed
qed

section \<open>One call of \<open>advance_iter\<close>\<close>

lemma save_next_eq:
  "save_next (x, w1) = (r, w') \<Longrightarrow>
     r = x \<and>
     (case x of
        Inl e \<Rightarrow> w' = w1
      | Inr v \<Rightarrow> w' = (if v = None then w1\<lparr>is_exhausted := True\<rparr> else w1)
                         \<lparr>next_output_time := v\<rparr>)"
  by (auto simp: save_next_def split: sum.splits)

lemma advance_first:
  "times_iter w = Iterator f i \<Longrightarrow> \<not> is_exhausted w \<Longrightarrow> next_output_time w = None \<Longrightarrow>
     advance_iter w = save_next (advance_iter_recursive 5 w)"
  by (simp add: advance_iter_def)

lemma advance_next:
  "times_iter w = Iterator f i \<Longrightarrow> \<not> is_exhausted w \<Longrightarrow> next_output_time w = Some t \<Longrightarrow>
   fle t (clock_stop w) \<Longrightarrow> \<not> feq t (clock_stop w) \<Longrightarrow>
     advance_iter w = save_next (advance_iter_recursive 5 (w\<lparr>prev_output_time := Some t\<rparr>))"
  by (simp add: advance_iter_def)

lemma advance_at_stop:
  "times_iter w = Iterator f i \<Longrightarrow> \<not> is_exhausted w \<Longrightarrow> next_output_time w = Some t \<Longrightarrow>
   feq t (clock_stop w) \<Longrightarrow>
     advance_iter w =
       (Inr None,
        w\<lparr>prev_output_time := Some t, is_exhausted := True, next_output_time := None\<rparr>)"
  by (simp add: advance_iter_def save_next_def feq_imp_fle)

lemma advance_exhausted:
  "times_iter w = Iterator f i \<Longrightarrow> is_exhausted w \<Longrightarrow> next_output_time w = None \<Longrightarrow>
     advance_iter w = (Inr None, w)"
  by (simp add: advance_iter_def)

lemma advances_exhausted:
  "times_iter w = Iterator f i \<Longrightarrow> is_exhausted w \<Longrightarrow> next_output_time w = None \<Longrightarrow>
     advances n w = (Inr (replicate n None), w)"
  by (induction n) (simp_all add: advance_exhausted)

lemma fst_save_next: "fst (save_next x) = fst x"
  by (cases x) (auto simp: save_next_def split: sum.splits)

text \<open>A call that pulls from the source is the resolution algorithm with budget 5, run
  with \<open>prev_output_time\<close> set to the last time handed out.\<close>

lemma advance_pulls:
  assumes "times_iter w = Iterator f i" and "pulls_source w"
  shows "advance_iter w =
           save_next (advance_iter_recursive 5 (w\<lparr>prev_output_time := last_out w\<rparr>))"
proof (cases "next_output_time w")
  case None
  then have "w\<lparr>prev_output_time := last_out w\<rparr> = w" by (simp add: last_out_def)
  with assms None show ?thesis by (simp add: advance_iter_def pulls_source_def)
next
  case (Some t)
  with assms show ?thesis by (simp add: advance_iter_def pulls_source_def last_out_def)
qed

section \<open>The file registry\<close>

text \<open>
  C9. \<open>register_output_filepath p\<close> appends \<open>p\<close> at the end of the registry when
  \<open>is_file_registered p\<close> is false and changes nothing when it is true; registering the
  same string twice is the same as registering it once, and \<open>p\<close> is registered afterwards.
\<close>

theorem register_output_filepath_spec:
  "(\<not> is_file_registered p w \<longrightarrow>
      register_output_filepath p w = w\<lparr>output_filepaths := output_filepaths w @ [p]\<rparr>) \<and>
   (is_file_registered p w \<longrightarrow> register_output_filepath p w = w) \<and>
   register_output_filepath p (register_output_filepath p w) = register_output_filepath p w \<and>
   is_file_registered p (register_output_filepath p w)"
  by (simp add: register_output_filepath_def is_file_registered_def)

theorem register_output_filepath_spec_witness:
  "\<not> is_file_registered ''a.nc'' (init (Finite 10) False True) \<and>
   register_output_filepath ''a.nc'' (init (Finite 10) False True) =
     (init (Finite 10) False True)
       \<lparr>output_filepaths := output_filepaths (init (Finite 10) False True) @ [''a.nc'']\<rparr> \<and>
   is_file_registered ''a.nc'' (register_output_filepath ''a.nc'' (init (Finite 10) False True)) \<and>
   register_output_filepath ''a.nc'' (register_output_filepath ''a.nc'' (init (Finite 10) False True))
     = register_output_filepath ''a.nc'' (init (Finite 10) False True)"
proof -
  have fresh: "\<not> is_file_registered ''a.nc'' (init (Finite 10) False True)"
    by (simp add: init_def is_file_registered_def)
  from register_output_filepath_spec [of "''a.nc''" "init (Finite 10) False True"] fresh
  show ?thesis by blast
qed

section \<open>Exhaustion\<close>

lemma advance_None:
  assumes "advance_iter w = (Inr None, w')"
  shows "next_output_time w' = None \<and> is_exhausted w' \<and> (\<exists>f j. times_iter w' = Iterator f j)"
proof -
  from assms obtain f i where it: "times_iter w = Iterator f i"
    by (cases "times_iter w") (auto simp: advance_iter_def)
  show ?thesis
  proof (cases "is_exhausted w")
    case True
    with assms it show ?thesis by (auto simp: advance_iter_def split: if_splits)
  next
    case live: False
    show ?thesis
    proof (cases "next_output_time w")
      case None
      obtain x w1 where air: "advance_iter_recursive 5 w = (x, w1)"
        by (cases "advance_iter_recursive 5 w")
      from assms advance_first [OF it live None] air
      have "save_next (x, w1) = (Inr None, w')" by simp
      from save_next_eq [OF this] air_position [OF air it] show ?thesis by auto
    next
      case (Some t)
      show ?thesis
      proof (cases "feq t (clock_stop w)")
        case True
        with assms advance_at_stop [OF it live Some] it show ?thesis by auto
      next
        case False
        with assms it live Some have le: "fle t (clock_stop w)"
          by (auto simp: advance_iter_def split: if_splits)
        let ?w0 = "w\<lparr>prev_output_time := Some t\<rparr>"
        obtain x w1 where air: "advance_iter_recursive 5 ?w0 = (x, w1)"
          by (cases "advance_iter_recursive 5 ?w0")
        have it0: "times_iter ?w0 = Iterator f i" using it by simp
        from assms advance_next [OF it live Some le False] air
        have "save_next (x, w1) = (Inr None, w')" by simp
        from save_next_eq [OF this] air_position [OF air it0] show ?thesis by auto
      qed
    qed
  qed
qed

lemma advance_Some:
  assumes "advance_iter w = (Inr (Some v), w')"
  shows "next_output_time w' = Some v \<and> \<not> is_exhausted w' \<and> clock_stop w' = clock_stop w \<and>
         (\<exists>f j. times_iter w' = Iterator f j)"
proof -
  from assms obtain f i where it: "times_iter w = Iterator f i"
    by (cases "times_iter w") (auto simp: advance_iter_def)
  from assms it have live: "\<not> is_exhausted w"
    by (auto simp: advance_iter_def split: if_splits)
  show ?thesis
  proof (cases "next_output_time w")
    case None
    obtain x w1 where air: "advance_iter_recursive 5 w = (x, w1)"
      by (cases "advance_iter_recursive 5 w")
    from assms advance_first [OF it live None] air
    have "save_next (x, w1) = (Inr (Some v), w')" by simp
    from save_next_eq [OF this] air_position [OF air it] air_frame [OF air] live
    show ?thesis by auto
  next
    case (Some t)
    from assms it live Some have le: "fle t (clock_stop w)" and ne: "\<not> feq t (clock_stop w)"
      by (auto simp: advance_iter_def save_next_def split: if_splits)
    let ?w0 = "w\<lparr>prev_output_time := Some t\<rparr>"
    obtain x w1 where air: "advance_iter_recursive 5 ?w0 = (x, w1)"
      by (cases "advance_iter_recursive 5 ?w0")
    have it0: "times_iter ?w0 = Iterator f i" using it by simp
    from assms advance_next [OF it live Some le ne] air
    have "save_next (x, w1) = (Inr (Some v), w')" by simp
    from save_next_eq [OF this] air_position [OF air it0] air_frame [OF air] live
    show ?thesis by auto
  qed
qed

text \<open>
  C7. Once a call of \<open>advance_iter\<close> has returned \<open>None\<close> the writer is exhausted, and
  any number of further calls return \<open>None\<close> each, raise nothing and leave the whole
  writer (the iterator and its position, \<open>prev_output_time\<close>, \<open>next_output_time\<close>,
  \<open>is_exhausted\<close>, the warnings) as it was.
\<close>

theorem exhaustion_idempotent:
  assumes "advance_iter w = (Inr None, w')"
  shows "is_exhausted w' \<and> next_output_time w' = None \<and>
         advance_iter w' = (Inr None, w') \<and>
         advances n w' = (Inr (replicate n None), w')"
proof -
  from advance_None [OF assms] obtain f j where
    "times_iter w' = Iterator f j" "is_exhausted w'" "next_output_time w' = None" by blast
  then show ?thesis
    by (simp add: advance_exhausted advances_exhausted)
qed

theorem exhaustion_idempotent_witness:
  "advance_iter (scheduler (floats [100]) (Finite 10) False False) =
     (Inr None, snd (advance_iter (scheduler (floats [100]) (Finite 10) False False))) \<and>
   is_exhausted (snd (advance_iter (scheduler (floats [100]) (Finite 10) False False))) \<and>
   advances 3 (snd (advance_iter (scheduler (floats [100]) (Finite 10) False False))) =
     (Inr (replicate 3 None),
      snd (advance_iter (scheduler (floats [100]) (Finite 10) False False)))"
proof -
  let ?w = "scheduler (floats [100]) (Finite 10) False False"
  have "fst (advance_iter ?w) = Inr None"
    by (simp add: scheduler_def init_def register_times_iter_def advance_iter_def save_next_def
          advance_iter_recursive.simps iter_of_def floats_def next_default_def fgt_def Let_def)
  then have first: "advance_iter ?w = (Inr None, snd (advance_iter ?w))"
    by (metis prod.collapse)
  from exhaustion_idempotent [OF first, of 3] first show ?thesis
    by blast
qed

section \<open>The stop time is handed out once\<close>

text \<open>
  C4. When a call of \<open>advance_iter\<close> returns a value equal to the stop time (pulled from
  the source or injected by \<open>save_last_timestep\<close>), the next call returns \<open>None\<close> and
  leaves the iterator where it was: no value is pulled and no warning is issued. Every call
  after that returns \<open>None\<close> as well, so the stop time is not handed out again.
\<close>

theorem no_double_stop_time:
  assumes "advance_iter w = (Inr (Some v), w')" and "feq v (clock_stop w)"
  shows "fst (advance_iter w') = Inr None \<and>
         times_iter (snd (advance_iter w')) = times_iter w' \<and>
         warnings (snd (advance_iter w')) = warnings w' \<and>
         fst (advances n (snd (advance_iter w'))) = Inr (replicate n None) \<and>
         times_iter (snd (advances n (snd (advance_iter w')))) = times_iter w'"
proof -
  from advance_Some [OF assms(1)] obtain f j where w':
    "next_output_time w' = Some v" "\<not> is_exhausted w'" "clock_stop w' = clock_stop w"
    "times_iter w' = Iterator f j" by blast
  from assms(2) w'(3) have "feq v (clock_stop w')" by simp
  from advance_at_stop [OF w'(4) w'(2) w'(1) this]
  have step: "advance_iter w' =
    (Inr None, w'\<lparr>prev_output_time := Some v, is_exhausted := True, next_output_time := None\<rparr>)" .
  let ?w'' = "w'\<lparr>prev_output_time := Some v, is_exhausted := True, next_output_time := None\<rparr>"
  have "advances n ?w'' = (Inr (replicate n None), ?w'')"
    by (rule advances_exhausted [of _ f j]) (simp_all add: w'(4))
  with step show ?thesis by simp
qed

theorem no_double_stop_time_witness:
  "fst (advance_iter (scheduler (floats [10, 3]) (Finite 10) False True)) = Inr (Some (Finite 10)) \<and>
   feq (Finite 10) (clock_stop (scheduler (floats [10, 3]) (Finite 10) False True)) \<and>
   fst (advance_iter (snd (advance_iter (scheduler (floats [10, 3]) (Finite 10) False True))))
     = Inr None \<and>
   times_iter (snd (advance_iter (snd (advance_iter
       (scheduler (floats [10, 3]) (Finite 10) False True)))))
     = times_iter (snd (advance_iter (scheduler (floats [10, 3]) (Finite 10) False True)))"
proof -
  let ?w = "scheduler (floats [10, 3]) (Finite 10) False True"
  have ret: "fst (advance_iter ?w) = Inr (Some (Finite 10))"
    by (simp add: scheduler_def init_def register_times_iter_def advance_iter_def save_next_def
          advance_iter_recursive.simps iter_of_def floats_def next_default_def fgt_def Let_def)
  then have first: "advance_iter ?w = (Inr (Some (Finite 10)), snd (advance_iter ?w))"
    by (metis prod.collapse)
  have stop: "feq (Finite 10) (clock_stop ?w)"
    by (simp add: scheduler_def init_def register_times_iter_def)
  from no_double_stop_time [OF first stop, of 0] ret stop show ?thesis
    by blast
qed

section \<open>The first output time\<close>

text \<open>
  C5. On a writer with a registered iterator that has handed out nothing yet, a pending
  \<open>save_first_timestep\<close> makes the first call of \<open>advance_iter\<close> return exactly
  \<open>0.0\<close>; the call consumes the flag and leaves the iterator where it was, whatever the
  iterator would yield.
\<close>

theorem boundary_inclusion:
  assumes "save_first_timestep w" and "times_iter w = Iterator f i"
    and "\<not> is_exhausted w" and "next_output_time w = None"
  shows "advance_iter w =
           (Inr (Some (Finite 0)),
            w\<lparr>save_first_timestep := False, next_output_time := Some (Finite 0)\<rparr>) \<and>
         times_iter (snd (advance_iter w)) = Iterator f i"
  using assms by (simp add: advance_iter_def air_flag save_next_def)

theorem boundary_inclusion_witness:
  "save_first_timestep (scheduler (floats [5]) (Finite 10) True True) \<and>
   times_iter (scheduler (floats [5]) (Finite 10) True True) = Iterator (iter_of (floats [5])) 0 \<and>
   \<not> is_exhausted (scheduler (floats [5]) (Finite 10) True True) \<and>
   next_output_time (scheduler (floats [5]) (Finite 10) True True) = None \<and>
   advance_iter (scheduler (floats [5]) (Finite 10) True True) =
     (Inr (Some (Finite 0)),
      (scheduler (floats [5]) (Finite 10) True True)
        \<lparr>save_first_timestep := False, next_output_time := Some (Finite 0)\<rparr>) \<and>
   times_iter (snd (advance_iter (scheduler (floats [5]) (Finite 10) True True))) =
     Iterator (iter_of (floats [5])) 0"
proof -
  let ?w = "scheduler (floats [5]) (Finite 10) True True"
  have h: "save_first_timestep ?w" "times_iter ?w = Iterator (iter_of (floats [5])) 0"
    "\<not> is_exhausted ?w" "next_output_time ?w = None"
    by (simp_all add: scheduler_def init_def register_times_iter_def)
  from boundary_inclusion [OF h] h show ?thesis by blast
qed

section \<open>Skipped times\<close>

text \<open>
  C6. The source \<open>[1.0, 2.0, 1.5, 5.0]\<close> with stop time \<open>10.0\<close> and both flags off:
  four calls of \<open>advance_iter\<close> return \<open>1.0\<close>, \<open>2.0\<close>, \<open>5.0\<close> and \<open>None\<close>, which
  exhausts the writer. The value \<open>1.5\<close> is skipped with one warning, an
  \<open>OutputIteratorSkipWarning\<close> whose message holds the skipped time \<open>1.5\<close> and the
  previous time \<open>2.0\<close>.
\<close>

theorem skip_tolerance:
  "fst (advances 4 (scheduler (floats [1, 2, 3 / 2, 5]) (Finite 10) False False)) =
     Inr [Some (Finite 1), Some (Finite 2), Some (Finite 5), None] \<and>
   is_exhausted (snd (advances 4 (scheduler (floats [1, 2, 3 / 2, 5]) (Finite 10) False False))) \<and>
   warnings (snd (advances 4 (scheduler (floats [1, 2, 3 / 2, 5]) (Finite 10) False False))) =
     [OutputIteratorSkipWarning
        [Lit ''Next output time '', Fmt (Finite (3 / 2)), Lit '' is <= '',
         Lit ''previous output time '', Fmt (Finite 2), Lit ''. Skipping...'']]"
  by (simp add: scheduler_def init_def register_times_iter_def advance_iter_def save_next_def
        advance_iter_recursive.simps iter_of_def floats_def next_default_def fgt_def fge_def
        warn_def get_message_def Let_def eval_nat_numeral)

section \<open>The budget of skips\<close>

text \<open>
  C1 as stated fails: with the source \<open>[1.0, 0.9, 0.8, 0.7, 0.6, 0.5]\<close>, stop time
  \<open>10.0\<close> and the default flags, the second call skips the five values, finds the source
  exhausted and returns the stop time; nothing is raised.
\<close>

theorem five_skips_no_error:
  "fst (advances 2
         (scheduler (floats [1, 9 / 10, 8 / 10, 7 / 10, 6 / 10, 5 / 10]) (Finite 10) False True)) =
     Inr [Some (Finite 1), Some (Finite 10)]"
  by (simp add: scheduler_def init_def register_times_iter_def advance_iter_def save_next_def
        advance_iter_recursive.simps iter_of_def floats_def next_default_def fgt_def fge_def
        warn_def get_message_def Let_def eval_nat_numeral)

text \<open>
  C1, amended. A call of \<open>advance_iter\<close> raises \<open>RecursionError\<close> exactly when it
  pulls from the source and the next six values are all skipped candidates: floats that are
  not above the stop time and not above the previous output time (an equal value counts).
  So the budget of 5 allows five skips in one call and the sixth consecutive skip raises.
  For a stop time above \<open>1.0\<close> and \<open>save_first_timestep\<close> off: with the source
  \<open>[1.0, 0.9, 0.8, 0.7, 0.6, 0.5, 0.4]\<close> the first call returns \<open>1.0\<close> and the second
  raises \<open>RecursionError\<close>; with the source \<open>[1.0, 0.9, 0.8, 0.7, 0.6, 0.5]\<close> the
  second call skips the five values with five warnings and, the source being exhausted,
  returns the stop time if \<open>save_last_timestep\<close> is set and \<open>None\<close> otherwise.
\<close>

theorem skip_budget:
  assumes "times_iter w = Iterator f i" and "flt (Finite 1) stop"
  shows "(fst (advance_iter w) = Inl (RecursionError ''Too many output times skipped.'')
            \<longleftrightarrow> pulls_source w \<and> skipped f i (last_out w) (clock_stop w) 6) \<and>
         fst (advances 2
           (scheduler (floats [1, 9 / 10, 8 / 10, 7 / 10, 6 / 10, 5 / 10, 4 / 10])
              stop False save_last)) =
           Inl (RecursionError ''Too many output times skipped.'') \<and>
         fst (advance_iter
           (scheduler (floats [1, 9 / 10, 8 / 10, 7 / 10, 6 / 10, 5 / 10, 4 / 10])
              stop False save_last)) = Inr (Some (Finite 1)) \<and>
         fst (advances 2
           (scheduler (floats [1, 9 / 10, 8 / 10, 7 / 10, 6 / 10, 5 / 10]) stop False save_last)) =
           Inr [Some (Finite 1), if save_last then Some stop else None] \<and>
         length (warnings (snd (advances 2
           (scheduler (floats [1, 9 / 10, 8 / 10, 7 / 10, 6 / 10, 5 / 10]) stop False save_last))))
           = 5"
proof -
  have law: "fst (advance_iter w) = Inl (RecursionError ''Too many output times skipped.'')
      \<longleftrightarrow> pulls_source w \<and> skipped f i (last_out w) (clock_stop w) 6"
  proof (cases "pulls_source w")
    case True
    let ?w0 = "w\<lparr>prev_output_time := last_out w\<rparr>"
    have six: "(6::nat) = Suc 5" by simp
    have w0: "\<not> save_first_timestep ?w0" "times_iter ?w0 = Iterator f i"
      using True assms(1) by (simp_all add: pulls_source_def)
    have "fst (advance_iter w) = fst (advance_iter_recursive 5 ?w0)"
      by (simp only: advance_pulls [OF assms(1) True] fst_save_next)
    moreover have "prev_output_time ?w0 = last_out w" "clock_stop ?w0 = clock_stop w"
      by simp_all
    ultimately have "fst (advance_iter w) = Inl (RecursionError ''Too many output times skipped.'')
        \<longleftrightarrow> skipped f i (last_out w) (clock_stop w) (Suc 5)"
      using air_recursion_error_iff [OF w0, of 5] by (simp only:)
    with True show ?thesis unfolding six by blast
  next
    case nopull: False
    have "fst (advance_iter w) \<noteq> Inl (RecursionError ''Too many output times skipped.'')"
    proof (cases "is_exhausted w")
      case True
      with assms(1) show ?thesis by (simp add: advance_iter_def)
    next
      case live: False
      show ?thesis
      proof (cases "save_first_timestep w")
        case True
        with assms(1) live show ?thesis
          by (simp add: advance_iter_def fst_save_next air_flag split: option.splits)
      next
        case False
        with nopull live obtain t where "next_output_time w = Some t"
          "\<not> fle t (clock_stop w) \<or> feq t (clock_stop w)"
          by (auto simp: pulls_source_def split: option.splits)
        with assms(1) live show ?thesis
          by (auto simp: advance_iter_def fst_save_next)
      qed
    qed
    with nopull show ?thesis by blast
  qed
  have runs: "fst (advances 2
           (scheduler (floats [1, 9 / 10, 8 / 10, 7 / 10, 6 / 10, 5 / 10, 4 / 10])
              stop False save_last)) =
           Inl (RecursionError ''Too many output times skipped.'') \<and>
         fst (advance_iter
           (scheduler (floats [1, 9 / 10, 8 / 10, 7 / 10, 6 / 10, 5 / 10, 4 / 10])
              stop False save_last)) = Inr (Some (Finite 1)) \<and>
         fst (advances 2
           (scheduler (floats [1, 9 / 10, 8 / 10, 7 / 10, 6 / 10, 5 / 10]) stop False save_last)) =
           Inr [Some (Finite 1), if save_last then Some stop else None] \<and>
         length (warnings (snd (advances 2
           (scheduler (floats [1, 9 / 10, 8 / 10, 7 / 10, 6 / 10, 5 / 10]) stop False save_last))))
           = 5"
  proof (cases stop)
    case (Finite r)
    with assms(2) have "1 < r" by simp
    with Finite show ?thesis
      by (simp add: scheduler_def init_def register_times_iter_def advance_iter_def save_next_def
            advance_iter_recursive.simps iter_of_def floats_def next_default_def fgt_def fge_def
            warn_def get_message_def Let_def eval_nat_numeral)
  next
    case PosInf
    then show ?thesis
      by (simp add: scheduler_def init_def register_times_iter_def advance_iter_def save_next_def
            advance_iter_recursive.simps iter_of_def floats_def next_default_def fgt_def fge_def
            warn_def get_message_def Let_def eval_nat_numeral)
  next
    case NegInf
    with assms(2) show ?thesis by simp
  next
    case NaN
    with assms(2) show ?thesis by simp
  qed
  from law runs show ?thesis by blast
qed

text \<open>The law at equal candidates: after \<open>1.0\<close>, six more values \<open>1.0\<close>.\<close>

theorem skip_budget_witness:
  "times_iter (snd (advance_iter (scheduler (floats [1, 1, 1, 1, 1, 1, 1]) (Finite 10) False True)))
     = Iterator (iter_of (floats [1, 1, 1, 1, 1, 1, 1])) (Suc 0) \<and>
   flt (Finite 1) (Finite 10) \<and>
   pulls_source
     (snd (advance_iter (scheduler (floats [1, 1, 1, 1, 1, 1, 1]) (Finite 10) False True))) \<and>
   skipped (iter_of (floats [1, 1, 1, 1, 1, 1, 1])) (Suc 0)
     (last_out (snd (advance_iter
        (scheduler (floats [1, 1, 1, 1, 1, 1, 1]) (Finite 10) False True))))
     (clock_stop (snd (advance_iter
        (scheduler (floats [1, 1, 1, 1, 1, 1, 1]) (Finite 10) False True)))) 6 \<and>
   fst (advance_iter
     (snd (advance_iter (scheduler (floats [1, 1, 1, 1, 1, 1, 1]) (Finite 10) False True)))) =
     Inl (RecursionError ''Too many output times skipped.'') \<and>
   fst (advances 2
     (scheduler (floats [1, 9 / 10, 8 / 10, 7 / 10, 6 / 10, 5 / 10, 4 / 10])
        (Finite 10) False True)) =
     Inl (RecursionError ''Too many output times skipped.'')"
proof -
  let ?f = "iter_of (floats [1, 1, 1, 1, 1, 1, 1])"
  let ?w = "snd (advance_iter (scheduler (floats [1, 1, 1, 1, 1, 1, 1]) (Finite 10) False True))"
  have w: "?w = \<lparr> save_first_timestep = False, save_last_timestep = True,
      times_iter = Iterator ?f (Suc 0), next_output_time = Some (Finite 1),
      prev_output_time = None, is_exhausted = False, output_filepaths = [],
      clock_stop = Finite 10, warnings = [] \<rparr>"
    by (simp add: scheduler_def init_def register_times_iter_def advance_iter_def save_next_def
          advance_iter_recursive.simps iter_of_def floats_def next_default_def fgt_def Let_def)
  have it: "times_iter ?w = Iterator ?f (Suc 0)" by (simp only: w writer.simps)
  have h: "flt (Finite 1) (Finite 10)" by simp
  have p: "pulls_source ?w" by (simp only: w) (simp add: pulls_source_def)
  have s: "skipped ?f (Suc 0) (last_out ?w) (clock_stop ?w) 6"
    by (simp only: w)
       (simp add: last_out_def iter_of_def floats_def next_default_def fgt_def fge_def
          eval_nat_numeral)
  from skip_budget [OF it h, of True] it h p s show ?thesis by blast
qed

section \<open>The value that ends a call\<close>


text \<open>
  C3. A call of \<open>advance_iter\<close> that pulls from the source and, after \<open>k\<close> skipped
  values (from none to the five of the budget), finds the source exhausted (\<open>next\<close> gave
  \<open>None\<close>) or pulls a float above the stop time: it returns the stop time if
  \<open>save_last_timestep\<close> is set and \<open>prev_output_time\<close>, as the call has updated it, is
  \<open>None\<close> or below the stop time; otherwise it returns \<open>None\<close> and the writer is
  exhausted. With the source \<open>[100.0]\<close> and stop time \<open>10.0\<close> the calls return
  \<open>10.0\<close> then \<open>None\<close> when \<open>save_last_timestep\<close> is set and \<open>None\<close> at once
  when it is not; with the source \<open>[5.0]\<close> they return \<open>5.0\<close>, \<open>10.0\<close>,
  \<open>None\<close> and \<open>5.0\<close>, \<open>None\<close>.
\<close>

theorem forced_final_output:
  assumes "times_iter w = Iterator f i" and "pulls_source w"
    and "k \<le> 5" and "skipped f i (last_out w) (clock_stop w) k"
    and "next_default f (i + k) = PyNone \<or>
         (\<exists>t. next_default f (i + k) = PyFloat t \<and> fgt t (clock_stop w))"
  shows "(let r = (if save_last_timestep w \<and>
                      (case last_out w of None \<Rightarrow> True | Some p \<Rightarrow> flt p (clock_stop w))
                   then Some (clock_stop w) else None)
          in fst (advance_iter w) = Inr r \<and>
             prev_output_time (snd (advance_iter w)) = last_out w \<and>
             next_output_time (snd (advance_iter w)) = r \<and>
             is_exhausted (snd (advance_iter w)) = (r = None) \<and>
             times_iter (snd (advance_iter w)) = Iterator f (Suc (i + k))) \<and>
         fst (advances 2 (scheduler (floats [100]) (Finite 10) False True)) =
           Inr [Some (Finite 10), None] \<and>
         fst (advances 1 (scheduler (floats [100]) (Finite 10) False False)) = Inr [None] \<and>
         fst (advances 3 (scheduler (floats [5]) (Finite 10) False True)) =
           Inr [Some (Finite 5), Some (Finite 10), None] \<and>
         fst (advances 2 (scheduler (floats [5]) (Finite 10) False False)) =
           Inr [Some (Finite 5), None]"
proof -
  let ?w0 = "w\<lparr>prev_output_time := last_out w\<rparr>"
  let ?r = "if save_last_timestep w \<and>
               (case last_out w of None \<Rightarrow> True | Some p \<Rightarrow> flt p (clock_stop w))
            then Some (clock_stop w) else None"
  from assms(2) have live: "\<not> is_exhausted w" and noflag: "\<not> save_first_timestep w"
    by (simp_all add: pulls_source_def)
  have w0: "\<not> save_first_timestep ?w0" "times_iter ?w0 = Iterator f i"
    "skipped f i (prev_output_time ?w0) (clock_stop ?w0) k"
    using noflag assms(1,4) by simp_all
  from air_skipped [OF w0, of "5 - k"] assms(3) obtain ws where
    skip: "advance_iter_recursive 5 ?w0 =
             advance_iter_recursive (5 - k)
               (?w0\<lparr>times_iter := Iterator f (i + k), warnings := warnings ?w0 @ ws\<rparr>)"
    by auto
  let ?w1 = "?w0\<lparr>times_iter := Iterator f (i + k), warnings := warnings ?w0 @ ws\<rparr>"
  have w1: "\<not> save_first_timestep ?w1" "times_iter ?w1 = Iterator f (i + k)"
    "next_default f (i + k) = PyNone \<or>
     (\<exists>t. next_default f (i + k) = PyFloat t \<and> fgt t (clock_stop ?w1))"
    using noflag assms(5) by simp_all
  have "advance_iter_recursive (5 - k) ?w1 =
      (Inr ?r, ?w1\<lparr>times_iter := Iterator f (Suc (i + k))\<rparr>)"
    using air_end [OF w1, of "5 - k"] by (simp cong: option.case_cong)
  with skip advance_pulls [OF assms(1,2)]
  have "advance_iter w = save_next (Inr ?r, ?w1\<lparr>times_iter := Iterator f (Suc (i + k))\<rparr>)"
    by simp
  then have general: "let r = ?r
          in fst (advance_iter w) = Inr r \<and>
             prev_output_time (snd (advance_iter w)) = last_out w \<and>
             next_output_time (snd (advance_iter w)) = r \<and>
             is_exhausted (snd (advance_iter w)) = (r = None) \<and>
             times_iter (snd (advance_iter w)) = Iterator f (Suc (i + k))"
    using live by (simp add: save_next_def Let_def)
  have ex1: "fst (advances 2 (scheduler (floats [100]) (Finite 10) False True)) =
      Inr [Some (Finite 10), None]"
    by (simp add: scheduler_def init_def register_times_iter_def advance_iter_def save_next_def
          advance_iter_recursive.simps iter_of_def floats_def next_default_def fgt_def fge_def
          Let_def eval_nat_numeral)
  have ex2: "fst (advances 1 (scheduler (floats [100]) (Finite 10) False False)) = Inr [None]"
    by (simp add: scheduler_def init_def register_times_iter_def advance_iter_def save_next_def
          advance_iter_recursive.simps iter_of_def floats_def next_default_def fgt_def fge_def
          Let_def)
  have ex3: "fst (advances 3 (scheduler (floats [5]) (Finite 10) False True)) =
      Inr [Some (Finite 5), Some (Finite 10), None]"
    by (simp add: scheduler_def init_def register_times_iter_def advance_iter_def save_next_def
          advance_iter_recursive.simps iter_of_def floats_def next_default_def fgt_def fge_def
          Let_def eval_nat_numeral)
  have ex4: "fst (advances 2 (scheduler (floats [5]) (Finite 10) False False)) =
      Inr [Some (Finite 5), None]"
    by (simp add: scheduler_def init_def register_times_iter_def advance_iter_def save_next_def
          advance_iter_recursive.simps iter_of_def floats_def next_default_def fgt_def fge_def
          Let_def eval_nat_numeral)
  from general ex1 ex2 ex3 ex4 show ?thesis by blast
qed

text \<open>
  The theorem on the second call for the source \<open>[5.0, 3.0]\<close> and stop time \<open>10.0\<close>:
  \<open>5.0\<close> is pending, \<open>3.0\<close> is skipped, the source is then exhausted, and the call
  returns \<open>10.0\<close>.
\<close>

theorem forced_final_output_witness:
  "times_iter (snd (advance_iter (scheduler (floats [5, 3]) (Finite 10) False True))) =
     Iterator (iter_of (floats [5, 3])) (Suc 0) \<and>
   pulls_source (snd (advance_iter (scheduler (floats [5, 3]) (Finite 10) False True))) \<and>
   (1::nat) \<le> 5 \<and>
   skipped (iter_of (floats [5, 3])) (Suc 0)
     (last_out (snd (advance_iter (scheduler (floats [5, 3]) (Finite 10) False True))))
     (clock_stop (snd (advance_iter (scheduler (floats [5, 3]) (Finite 10) False True)))) 1 \<and>
   next_default (iter_of (floats [5, 3])) (Suc 0 + 1) = PyNone \<and>
   fst (advance_iter (snd (advance_iter (scheduler (floats [5, 3]) (Finite 10) False True)))) =
     Inr (Some (Finite 10)) \<and>
   prev_output_time (snd (advance_iter
       (snd (advance_iter (scheduler (floats [5, 3]) (Finite 10) False True))))) =
     Some (Finite 5)"
proof -
  let ?f = "iter_of (floats [5, 3])"
  let ?w = "snd (advance_iter (scheduler (floats [5, 3]) (Finite 10) False True))"
  have w: "?w = \<lparr> save_first_timestep = False, save_last_timestep = True,
      times_iter = Iterator ?f (Suc 0), next_output_time = Some (Finite 5),
      prev_output_time = None, is_exhausted = False, output_filepaths = [],
      clock_stop = Finite 10, warnings = [] \<rparr>"
    by (simp add: scheduler_def init_def register_times_iter_def advance_iter_def save_next_def
          advance_iter_recursive.simps iter_of_def floats_def next_default_def fgt_def Let_def)
  have it: "times_iter ?w = Iterator ?f (Suc 0)" by (simp only: w writer.simps)
  have p: "pulls_source ?w" by (simp only: w) (simp add: pulls_source_def)
  have k: "(1::nat) \<le> 5" by simp
  have s: "skipped ?f (Suc 0) (last_out ?w) (clock_stop ?w) 1"
    by (simp only: w)
       (simp add: last_out_def iter_of_def floats_def next_default_def fgt_def fge_def)
  have e: "next_default ?f (Suc 0 + 1) = PyNone"
    by (simp add: iter_of_def floats_def next_default_def)
  then have e': "next_default ?f (Suc 0 + 1) = PyNone \<or>
     (\<exists>t. next_default ?f (Suc 0 + 1) = PyFloat t \<and> fgt t (clock_stop ?w))" by blast
  have vals: "save_last_timestep ?w" "last_out ?w = Some (Finite 5)" "clock_stop ?w = Finite 10"
    by (simp_all only: w) (simp_all add: last_out_def)
  from forced_final_output [OF it p k s e']
  have "fst (advance_iter ?w) = Inr (Some (Finite 10)) \<and>
        prev_output_time (snd (advance_iter ?w)) = Some (Finite 5)"
    by (simp add: Let_def vals)
  with it p k s e show ?thesis by blast
qed

section \<open>Usage errors\<close>




section \<open>Zero handed out once\<close>

lemma flt_imp_not_feq: "flt a b \<Longrightarrow> \<not> feq a b"
  by (cases a; cases b) auto

lemma flt_asym: "flt a b \<Longrightarrow> \<not> flt b a"
  by (cases a; cases b) auto

lemma fle_flt_trans: "fle a b \<Longrightarrow> flt b c \<Longrightarrow> flt a c"
  by (cases a; cases b; cases c) auto

lemma above_after_skip: "fle a b \<Longrightarrow> \<not> fge b c \<Longrightarrow> flt a c \<or> is_nan c"
  by (cases a; cases b; cases c) (auto simp: fge_def)

lemma nan_not_feq: "is_nan t \<Longrightarrow> \<not> feq t a"
  by (cases t) auto

text \<open>
  Once the flag is consumed and the pending time is zero or more, no later call returns a
  value equal to zero. (A NaN from the source may be returned; it is not equal to zero, and
  the call after it fails its assertion.)
\<close>

lemma advance_above_zero:
  assumes flag: "\<not> save_first_timestep w"
    and pending: "\<forall>t. next_output_time w = Some t \<longrightarrow> fle (Finite 0) t \<or> is_nan t"
    and started: "next_output_time w = None \<longrightarrow> is_exhausted w"
    and run: "advance_iter w = (Inr r, w')"
  shows "\<not> save_first_timestep w' \<and>
         (\<forall>t. next_output_time w' = Some t \<longrightarrow> flt (Finite 0) t \<or> is_nan t) \<and>
         (next_output_time w' = None \<longrightarrow> is_exhausted w') \<and>
         (\<forall>t. r = Some t \<longrightarrow> \<not> feq t (Finite 0))"
proof -
  from run obtain f i where it: "times_iter w = Iterator f i"
    by (cases "times_iter w") (auto simp: advance_iter_def)
  show ?thesis
  proof (cases "is_exhausted w")
    case True
    with run it flag show ?thesis by (auto simp: advance_iter_def split: if_splits)
  next
    case live: False
    with started obtain t0 where t0: "next_output_time w = Some t0" by auto
    from run it live t0 have le: "fle t0 (clock_stop w)"
      by (auto simp: advance_iter_def split: if_splits)
    with pending t0 have pos: "fle (Finite 0) t0" by (auto dest: fle_not_nan)
    show ?thesis
    proof (cases "feq t0 (clock_stop w)")
      case True
      with run advance_at_stop [OF it live t0] flag show ?thesis by auto
    next
      case False
      let ?w0 = "w\<lparr>prev_output_time := Some t0\<rparr>"
      obtain x w1 where air: "advance_iter_recursive 5 ?w0 = (x, w1)"
        by (cases "advance_iter_recursive 5 ?w0")
      have it0: "times_iter ?w0 = Iterator f i" using it by simp
      from run advance_next [OF it live t0 le False] air
      have "save_next (x, w1) = (Inr r, w')" by simp
      from save_next_eq [OF this]
      have x: "x = Inr r"
        and w': "w' = (if r = None then w1\<lparr>is_exhausted := True\<rparr> else w1)
                        \<lparr>next_output_time := r\<rparr>"
        by auto
      from air_frame [OF air] have noflag: "\<not> save_first_timestep w1" by simp
      show ?thesis
      proof (cases r)
        case None
        with w' noflag show ?thesis by simp
      next
        case (Some t)
        from air_some [OF air [unfolded x Some] it0] flag
        have "(t = clock_stop w \<and> flt t0 (clock_stop w)) \<or> \<not> fge t0 t" by auto
        with pos have "flt (Finite 0) t \<or> is_nan t"
          by (auto dest: fle_flt_trans above_after_skip)
        with Some w' noflag show ?thesis
          by (auto dest: flt_not_feq nan_not_feq)
      qed
    qed
  qed
qed

lemma advances_above_zero:
  "\<not> save_first_timestep w \<Longrightarrow>
   \<forall>t. next_output_time w = Some t \<longrightarrow> fle (Finite 0) t \<or> is_nan t \<Longrightarrow>
   next_output_time w = None \<longrightarrow> is_exhausted w \<Longrightarrow>
   advances n w = (Inr rs, w') \<Longrightarrow>
     \<forall>t \<in> set (returned_times rs). \<not> feq t (Finite 0)"
proof (induction n arbitrary: w rs)
  case 0
  then show ?case by simp
next
  case (Suc n)
  from Suc.prems(4) obtain r w1 rs' where
    step: "advance_iter w = (Inr r, w1)" and rest: "advances n w1 = (Inr rs', w')"
    and rs: "rs = r # rs'"
    by (auto split: prod.splits sum.splits)
  from advance_above_zero [OF Suc.prems(1-3) step]
  have w1: "\<not> save_first_timestep w1"
    "\<forall>t. next_output_time w1 = Some t \<longrightarrow> fle (Finite 0) t \<or> is_nan t"
    "next_output_time w1 = None \<longrightarrow> is_exhausted w1"
    and r: "\<forall>t. r = Some t \<longrightarrow> \<not> feq t (Finite 0)"
    by (auto dest: flt_imp_fle)
  from Suc.IH [OF w1 rest] r rs show ?case
    by (cases r) auto
qed

lemma fle_not_fgt: "fle t stop \<Longrightarrow> \<not> fgt t stop"
  by (cases t; cases stop) (auto simp: fgt_def)

lemma flt_not_fge: "flt p t \<Longrightarrow> \<not> fge p t"
  by (cases t; cases p) (auto simp: fge_def)

text \<open>A float within the stop time and above the previous output time is returned.\<close>

lemma air_accept:
  assumes "\<not> save_first_timestep w" and "times_iter w = Iterator f i"
    and "next_default f i = PyFloat t" and "\<not> fgt t (clock_stop w)"
    and "case prev_output_time w of None \<Rightarrow> True | Some p \<Rightarrow> \<not> fge p t"
  shows "advance_iter_recursive n w = (Inr (Some t), w\<lparr>times_iter := Iterator f (Suc i)\<rparr>)"
  using assms
  by (subst advance_iter_recursive.simps) (auto simp: Let_def split: option.splits)

text \<open>
  C10 as stated fails when the stop time is \<open>0.0\<close>: the first call returns \<open>0.0\<close>,
  which is the stop time, so the second call returns \<open>None\<close> by the stop-time test and
  never pulls the source's \<open>0.0\<close>; the iterator is still at its first position.
\<close>

theorem zero_stop_no_pull:
  "fst (advances 2 (scheduler (floats [0, 1]) (Finite 0) True True)) =
     Inr [Some (Finite 0), None] \<and>
   times_iter (snd (advances 2 (scheduler (floats [0, 1]) (Finite 0) True True))) =
     Iterator (iter_of (floats [0, 1])) 0"
  by (simp add: scheduler_def init_def register_times_iter_def advance_iter_def save_next_def
        advance_iter_recursive.simps Let_def eval_nat_numeral)

text \<open>
  C10, amended. A writer with \<open>save_first_timestep\<close> pending, a stop time above zero and
  a source whose first value is \<open>0.0\<close>. The first call of \<open>advance_iter\<close> returns
  \<open>0.0\<close> from the flag and leaves the iterator where it was. The second call pulls the
  source's \<open>0.0\<close> and skips it without a warning: it goes on as the resolution algorithm
  does from the next position of the iterator, with one skip of the budget used and the
  warnings as they were. So, when the source's next value is a float above zero and within
  the stop time, the second call returns that value, and when the source is exhausted there,
  it returns the stop time if \<open>save_last_timestep\<close> is set and \<open>None\<close> otherwise; in
  both cases no warning is added. No call after the first returns a value equal to
  \<open>0.0\<close>. With the source \<open>[0.0, 1.0]\<close> and stop time \<open>10.0\<close> the calls return
  \<open>0.0\<close>, \<open>1.0\<close>, \<open>10.0\<close> and no warning is issued.
\<close>

theorem zero_emitted_once:
  assumes "save_first_timestep w" and "times_iter w = Iterator f i"
    and "\<not> is_exhausted w" and "next_output_time w = None"
    and "f i = Yield (PyFloat (Finite 0))" and "flt (Finite 0) (clock_stop w)"
  shows "advance_iter w =
           (Inr (Some (Finite 0)),
            w\<lparr>save_first_timestep := False, next_output_time := Some (Finite 0)\<rparr>) \<and>
         advance_iter (w\<lparr>save_first_timestep := False, next_output_time := Some (Finite 0)\<rparr>) =
           save_next (advance_iter_recursive 4
             (w\<lparr>save_first_timestep := False, next_output_time := Some (Finite 0),
                prev_output_time := Some (Finite 0), times_iter := Iterator f (Suc i)\<rparr>)) \<and>
         (\<forall>n rs w'.
            advances n (w\<lparr>save_first_timestep := False, next_output_time := Some (Finite 0)\<rparr>)
              = (Inr rs, w') \<longrightarrow>
            (\<forall>t \<in> set (returned_times rs). \<not> feq t (Finite 0))) \<and>
         (\<forall>t. f (Suc i) = Yield (PyFloat t) \<and> flt (Finite 0) t \<and> fle t (clock_stop w) \<longrightarrow>
            advance_iter (w\<lparr>save_first_timestep := False, next_output_time := Some (Finite 0)\<rparr>) =
              (Inr (Some t),
               w\<lparr>save_first_timestep := False, next_output_time := Some t,
                  prev_output_time := Some (Finite 0),
                  times_iter := Iterator f (Suc (Suc i))\<rparr>)) \<and>
         (next_default f (Suc i) = PyNone \<longrightarrow>
            fst (advance_iter
                   (w\<lparr>save_first_timestep := False, next_output_time := Some (Finite 0)\<rparr>)) =
              Inr (if save_last_timestep w then Some (clock_stop w) else None) \<and>
            warnings (snd (advance_iter
                   (w\<lparr>save_first_timestep := False, next_output_time := Some (Finite 0)\<rparr>))) =
              warnings w) \<and>
         fst (advances 3 (scheduler (floats [0, 1]) (Finite 10) True True)) =
           Inr [Some (Finite 0), Some (Finite 1), Some (Finite 10)] \<and>
         warnings (snd (advances 3 (scheduler (floats [0, 1]) (Finite 10) True True))) = []"
proof -
  let ?w1 = "w\<lparr>save_first_timestep := False, next_output_time := Some (Finite 0)\<rparr>"
  let ?w0 = "?w1\<lparr>prev_output_time := Some (Finite 0)\<rparr>"
  let ?w2 = "w\<lparr>save_first_timestep := False, next_output_time := Some (Finite 0),
                prev_output_time := Some (Finite 0), times_iter := Iterator f (Suc i)\<rparr>"
  have first: "advance_iter w = (Inr (Some (Finite 0)), ?w1)"
    using assms(1-4) by (simp add: advance_iter_def air_flag save_next_def)
  have adv: "advance_iter ?w1 = save_next (advance_iter_recursive 5 ?w0)"
    by (rule advance_next [of _ f i])
       (use assms in \<open>simp_all add: flt_imp_fle flt_imp_not_feq\<close>)
  have "advance_iter_recursive (Suc 4) ?w0 =
      advance_iter_recursive 4 (?w0\<lparr>times_iter := Iterator f (Suc i)\<rparr>)"
    by (subst air_skip [of ?w0 f i "Finite 0" "Finite 0" 4])
       (use assms in \<open>simp_all add: next_default_def fgt_def fge_def flt_asym\<close>)
  with adv have second: "advance_iter ?w1 = save_next (advance_iter_recursive 4 ?w2)"
    by simp
  have later: "\<forall>t \<in> set (returned_times rs). \<not> feq t (Finite 0)"
    if "advances n ?w1 = (Inr rs, w')" for n rs w'
    using advances_above_zero [of ?w1 n rs w'] that by simp
  have w2: "\<not> save_first_timestep ?w2" "times_iter ?w2 = Iterator f (Suc i)" by simp_all
  have inrange: "advance_iter ?w1 =
      (Inr (Some t),
       w\<lparr>save_first_timestep := False, next_output_time := Some t,
          prev_output_time := Some (Finite 0), times_iter := Iterator f (Suc (Suc i))\<rparr>)"
    if "f (Suc i) = Yield (PyFloat t) \<and> flt (Finite 0) t \<and> fle t (clock_stop w)" for t
  proof -
    from that have "next_default f (Suc i) = PyFloat t" "\<not> fgt t (clock_stop ?w2)"
      "case prev_output_time ?w2 of None \<Rightarrow> True | Some p \<Rightarrow> \<not> fge p t"
      by (simp_all add: next_default_def fle_not_fgt flt_not_fge)
    from air_accept [OF w2 this, of 4] second show ?thesis
      by (simp add: save_next_def)
  qed
  have ended: "fst (advance_iter ?w1) =
        Inr (if save_last_timestep w then Some (clock_stop w) else None) \<and>
      warnings (snd (advance_iter ?w1)) = warnings w"
    if "next_default f (Suc i) = PyNone"
  proof -
    from that have "next_default f (Suc i) = PyNone \<or>
        (\<exists>t. next_default f (Suc i) = PyFloat t \<and> fgt t (clock_stop ?w2))" by simp
    from air_end [OF w2 this, of 4] second assms(6) show ?thesis
      by (simp add: save_next_def)
  qed
  have run: "fst (advances 3 (scheduler (floats [0, 1]) (Finite 10) True True)) =
        Inr [Some (Finite 0), Some (Finite 1), Some (Finite 10)] \<and>
      warnings (snd (advances 3 (scheduler (floats [0, 1]) (Finite 10) True True))) = []"
    by (simp add: scheduler_def init_def register_times_iter_def advance_iter_def save_next_def
          advance_iter_recursive.simps iter_of_def floats_def next_default_def fgt_def fge_def
          warn_def get_message_def Let_def eval_nat_numeral)
  from first second later inrange ended run show ?thesis by blast
qed

theorem zero_emitted_once_witness:
  "save_first_timestep (scheduler (floats [0, 1]) (Finite 10) True True) \<and>
   times_iter (scheduler (floats [0, 1]) (Finite 10) True True) =
     Iterator (iter_of (floats [0, 1])) 0 \<and>
   \<not> is_exhausted (scheduler (floats [0, 1]) (Finite 10) True True) \<and>
   next_output_time (scheduler (floats [0, 1]) (Finite 10) True True) = None \<and>
   iter_of (floats [0, 1]) 0 = Yield (PyFloat (Finite 0)) \<and>
   flt (Finite 0) (clock_stop (scheduler (floats [0, 1]) (Finite 10) True True)) \<and>
   advance_iter (scheduler (floats [0, 1]) (Finite 10) True True) =
     (Inr (Some (Finite 0)),
      (scheduler (floats [0, 1]) (Finite 10) True True)
        \<lparr>save_first_timestep := False, next_output_time := Some (Finite 0)\<rparr>) \<and>
   iter_of (floats [0, 1]) (Suc 0) = Yield (PyFloat (Finite 1)) \<and>
   flt (Finite 0) (Finite 1) \<and>
   fle (Finite 1) (clock_stop (scheduler (floats [0, 1]) (Finite 10) True True)) \<and>
   advance_iter
     ((scheduler (floats [0, 1]) (Finite 10) True True)
        \<lparr>save_first_timestep := False, next_output_time := Some (Finite 0)\<rparr>) =
     (Inr (Some (Finite 1)),
      (scheduler (floats [0, 1]) (Finite 10) True True)
        \<lparr>save_first_timestep := False, next_output_time := Some (Finite 1),
         prev_output_time := Some (Finite 0),
         times_iter := Iterator (iter_of (floats [0, 1])) (Suc (Suc 0))\<rparr>)"
proof -
  let ?w = "scheduler (floats [0, 1]) (Finite 10) True True"
  have h: "save_first_timestep ?w" "times_iter ?w = Iterator (iter_of (floats [0, 1])) 0"
    "\<not> is_exhausted ?w" "next_output_time ?w = None"
    "iter_of (floats [0, 1]) 0 = Yield (PyFloat (Finite 0))"
    "flt (Finite 0) (clock_stop ?w)"
    by (simp_all add: scheduler_def init_def register_times_iter_def iter_of_def floats_def)
  have g: "iter_of (floats [0, 1]) (Suc 0) = Yield (PyFloat (Finite 1))"
    "flt (Finite 0) (Finite 1)" "fle (Finite 1) (clock_stop ?w)"
    by (simp_all add: scheduler_def init_def register_times_iter_def iter_of_def floats_def)
  from zero_emitted_once [OF h] h g show ?thesis by blast
qed

section \<open>Monotonicity and the stop time\<close>

lemma iter_of_floats_no_nan: "iter_of (floats rs) j \<noteq> Yield (PyFloat NaN)"
  by (simp add: iter_of_def floats_def)

lemma sorted_wrt_flt_fle: "sorted_wrt flt ts \<Longrightarrow> sorted_wrt fle ts"
  by (induction ts) (auto dest: flt_imp_fle)

lemma sorted_wrt_flt_distinct: "sorted_wrt flt ts \<Longrightarrow> distinct ts"
  by (induction ts) (auto simp: flt_irrefl)

text \<open>What a call that returns leaves of the iterator, the stop time and the flag.\<close>

lemma advance_frame:
  assumes run: "advance_iter w = (Inr r, w')" and it: "times_iter w = Iterator f i"
  shows "(\<exists>j. times_iter w' = Iterator f j) \<and> clock_stop w' = clock_stop w \<and>
         (save_first_timestep w' \<longrightarrow> save_first_timestep w) \<and> next_output_time w' = r"
proof (cases "is_exhausted w")
  case True
  with run it show ?thesis by (auto simp: advance_iter_def split: if_splits)
next
  case live: False
  define w0 where "w0 = w\<lparr>prev_output_time := last_out w\<rparr>"
  show ?thesis
  proof (cases "\<exists>t. next_output_time w = Some t \<and> feq t (clock_stop w)")
    case True
    then obtain t where t: "next_output_time w = Some t" "feq t (clock_stop w)" by blast
    from advance_at_stop [OF it live t] run it show ?thesis by auto
  next
    case False
    with run it live have "pulls_source w \<or> save_first_timestep w"
      by (auto simp: advance_iter_def pulls_source_def split: option.splits if_splits)
    then have adv: "advance_iter w = save_next (advance_iter_recursive 5 w0)"
    proof
      assume "pulls_source w"
      from advance_pulls [OF it this] show ?thesis by (simp add: w0_def)
    next
      assume flag: "save_first_timestep w"
      show ?thesis
      proof (cases "next_output_time w")
        case None
        then have "w0 = w" by (simp add: w0_def last_out_def)
        with advance_first [OF it live None] show ?thesis by simp
      next
        case (Some t)
        with run it live False have "fle t (clock_stop w)" "\<not> feq t (clock_stop w)"
          by (auto simp: advance_iter_def split: if_splits)
        with advance_next [OF it live Some] Some show ?thesis
          by (simp add: w0_def last_out_def)
      qed
    qed
    obtain x w1 where air: "advance_iter_recursive 5 w0 = (x, w1)"
      by (cases "advance_iter_recursive 5 w0")
    have it0: "times_iter w0 = Iterator f i" using it by (simp add: w0_def)
    from adv run air have "save_next (x, w1) = (Inr r, w')" by simp
    from save_next_eq [OF this] air_frame [OF air] air_position [OF air it0]
    show ?thesis by (auto simp: w0_def split: if_splits)
  qed
qed

text \<open>One call keeps the invariant, and a returned time is above the last one handed out.\<close>

lemma advance_step:
  assumes inv: "sched_inv f w"
    and nonan: "\<forall>j. f j \<noteq> Yield (PyFloat NaN)"
    and run: "advance_iter w = (Inr r, w')"
  shows "sched_inv f w' \<and>
         (case r of
            None \<Rightarrow> last_out w' = last_out w
          | Some t \<Rightarrow> last_out w' = Some t \<and> (\<forall>p. last_out w = Some p \<longrightarrow> flt p t))"
proof -
  from inv obtain i where it: "times_iter w = Iterator f i" by (auto simp: sched_inv_def)
  show ?thesis
  proof (cases "is_exhausted w")
    case True
    with run it inv show ?thesis
      by (auto simp: advance_iter_def split: if_splits)
  next
    case live: False
    define w0 where "w0 = (case next_output_time w of None \<Rightarrow> w
                            | Some t \<Rightarrow> w\<lparr>prev_output_time := Some t\<rparr>)"
    have pending: "fle t (clock_stop w)" if "next_output_time w = Some t" for t
      using run it live that by (auto simp: advance_iter_def split: if_splits)
    show ?thesis
    proof (cases "\<exists>t. next_output_time w = Some t \<and> feq t (clock_stop w)")
      case True
      then obtain t where t: "next_output_time w = Some t" "feq t (clock_stop w)" by blast
      from advance_at_stop [OF it live t] run
      have "r = None"
        "w' = w\<lparr>prev_output_time := Some t, is_exhausted := True, next_output_time := None\<rparr>"
        by auto
      with inv t pending [OF t(1)] show ?thesis
        by (auto simp: sched_inv_def last_out_def dest: fle_not_nan)
    next
      case False
      have adv: "advance_iter w = save_next (advance_iter_recursive 5 w0)"
      proof (cases "next_output_time w")
        case None
        with advance_first [OF it live] show ?thesis by (simp add: w0_def)
      next
        case (Some t)
        with False pending have "fle t (clock_stop w)" "\<not> feq t (clock_stop w)" by auto
        with advance_next [OF it live Some] Some show ?thesis by (simp add: w0_def)
      qed
      obtain x w1 where air: "advance_iter_recursive 5 w0 = (x, w1)"
        by (cases "advance_iter_recursive 5 w0")
      from adv run air have "save_next (x, w1) = (Inr r, w')" by simp
      from save_next_eq [OF this]
      have x: "x = Inr r"
        and w': "w' = (if r = None then w1\<lparr>is_exhausted := True\<rparr> else w1)
                        \<lparr>next_output_time := r\<rparr>"
        by auto
      have w0: "times_iter w0 = Iterator f i"
        "prev_output_time w0 = last_out w" "is_exhausted w0 = is_exhausted w"
        using it by (auto simp: w0_def last_out_def split: option.splits)
      have flag0: "save_first_timestep w0 \<longrightarrow> prev_output_time w0 = None"
        using inv by (auto simp: w0_def sched_inv_def split: option.splits)
      have prev0: "\<forall>p. prev_output_time w0 = Some p \<longrightarrow> \<not> is_nan p"
        using inv pending
        by (auto simp: w0_def sched_inv_def split: option.splits dest: fle_not_nan)
      from air_frame [OF air] air_position [OF air w0(1)] w0
      have w1: "prev_output_time w1 = last_out w"
        "is_exhausted w1 = is_exhausted w"
        "\<not> save_first_timestep w1" "\<exists>j. times_iter w1 = Iterator f j"
        by auto
      show ?thesis
      proof (cases r)
        case None
        with w' w1 prev0 w0 show ?thesis
          by (auto simp: sched_inv_def last_out_def)
      next
        case (Some t)
        from air_some_above [OF air [unfolded x Some] w0(1) nonan flag0 prev0] w0
        have "\<forall>p. last_out w = Some p \<longrightarrow> flt p t" by auto
        with Some w' w1 prev0 w0 live show ?thesis
          by (auto simp: sched_inv_def last_out_def)
      qed
    qed
  qed
qed

text \<open>Any number of calls: the returned times increase strictly.\<close>

lemma advances_increasing:
  "sched_inv f w \<Longrightarrow> \<forall>j. f j \<noteq> Yield (PyFloat NaN) \<Longrightarrow>
   advances n w = (Inr rs, w') \<Longrightarrow>
     sched_inv f w' \<and> sorted_wrt flt (returned_times rs) \<and>
     (\<forall>t \<in> set (returned_times rs). \<forall>p. last_out w = Some p \<longrightarrow> flt p t)"
proof (induction n arbitrary: w rs)
  case 0
  then show ?case by simp
next
  case (Suc n)
  from Suc.prems(3) obtain r w1 rs' where
    step: "advance_iter w = (Inr r, w1)" and rest: "advances n w1 = (Inr rs', w')"
    and rs: "rs = r # rs'"
    by (auto split: prod.splits sum.splits)
  from advance_step [OF Suc.prems(1,2) step]
  have inv1: "sched_inv f w1"
    and r: "case r of None \<Rightarrow> last_out w1 = last_out w
            | Some t \<Rightarrow> last_out w1 = Some t \<and> (\<forall>p. last_out w = Some p \<longrightarrow> flt p t)"
    by simp_all
  from Suc.IH [OF inv1 Suc.prems(2) rest]
  have inv': "sched_inv f w'" and sorted: "sorted_wrt flt (returned_times rs')"
    and above: "\<forall>t \<in> set (returned_times rs'). \<forall>p. last_out w1 = Some p \<longrightarrow> flt p t"
    by simp_all
  show ?case
  proof (cases r)
    case None
    with r rs inv' sorted above show ?thesis by simp
  next
    case (Some t)
    with r have t: "last_out w1 = Some t" "\<forall>p. last_out w = Some p \<longrightarrow> flt p t" by simp_all
    with above have "\<forall>t' \<in> set (returned_times rs'). flt t t'" by simp
    with Some rs inv' sorted t(2) show ?thesis
      by (auto intro: flt_trans)
  qed
qed

text \<open>
  The order of the returned times needs nothing of the stop time. For a source that yields
  no NaN, whatever the stop time and the flags: after any number of calls none of which
  raised, the returned values other than \<open>None\<close> increase strictly (they are
  non-decreasing and pairwise different), and a pending \<open>next_output_time\<close> is above
  \<open>prev_output_time\<close>.
\<close>

lemma returned_times_increasing:
  assumes "\<forall>j. f j \<noteq> Yield (PyFloat NaN)"
    and "advances n (register_times_iter (Iterator f i) (init stop save_first save_last)) =
           (Inr rs, w')"
  shows "sorted_wrt fle (returned_times rs) \<and> distinct (returned_times rs) \<and>
         sorted_wrt flt (returned_times rs) \<and>
         (case next_output_time w' of
            None \<Rightarrow> True
          | Some t \<Rightarrow> (case prev_output_time w' of None \<Rightarrow> True | Some p \<Rightarrow> flt p t))"
proof -
  have "sched_inv f (register_times_iter (Iterator f i) (init stop save_first save_last))"
    by (simp add: sched_inv_def register_times_iter_def init_def)
  from advances_increasing [OF this assms]
  have inv: "sched_inv f w'" and sorted: "sorted_wrt flt (returned_times rs)"
    by simp_all
  from inv have "case next_output_time w' of
            None \<Rightarrow> True
          | Some t \<Rightarrow> (case prev_output_time w' of None \<Rightarrow> True | Some p \<Rightarrow> flt p t)"
    by (auto simp: sched_inv_def split: option.splits)
  with sorted show ?thesis
    by (simp add: sorted_wrt_flt_fle sorted_wrt_flt_distinct)
qed

text \<open>A returned time is at most the stop time when the stop time admits it.\<close>

lemma advance_le:
  assumes run: "advance_iter w = (Inr (Some t), w')" and it: "times_iter w = Iterator f i"
    and nonan: "\<forall>j. f j \<noteq> Yield (PyFloat NaN)" "\<not> is_nan (clock_stop w)"
    and flag: "save_first_timestep w \<longrightarrow> fle (Finite 0) (clock_stop w)"
  shows "fle t (clock_stop w)"
proof -
  from run it have live: "\<not> is_exhausted w"
    by (auto simp: advance_iter_def split: if_splits)
  define w0 where "w0 = (case next_output_time w of None \<Rightarrow> w
                          | Some t \<Rightarrow> w\<lparr>prev_output_time := Some t\<rparr>)"
  have adv: "advance_iter w = save_next (advance_iter_recursive 5 w0)"
  proof (cases "next_output_time w")
    case None
    with advance_first [OF it live] show ?thesis by (simp add: w0_def)
  next
    case (Some t0)
    with run it live have "fle t0 (clock_stop w)" "\<not> feq t0 (clock_stop w)"
      by (auto simp: advance_iter_def save_next_def split: if_splits)
    with advance_next [OF it live Some] Some show ?thesis by (simp add: w0_def)
  qed
  obtain x w1 where air: "advance_iter_recursive 5 w0 = (x, w1)"
    by (cases "advance_iter_recursive 5 w0")
  from adv run air have "save_next (x, w1) = (Inr (Some t), w')" by simp
  from save_next_eq [OF this] air have air': "advance_iter_recursive 5 w0 = (Inr (Some t), w1)"
    by simp
  have w0: "times_iter w0 = Iterator f i" "clock_stop w0 = clock_stop w"
    "save_first_timestep w0 = save_first_timestep w"
    using it by (auto simp: w0_def split: option.splits)
  from air_some_le [OF air' w0(1) nonan(1)] nonan(2) flag w0 show ?thesis by simp
qed

text \<open>
  The bound on the pending time does depend on the stop time. For a source that yields no
  NaN, a stop time that is not NaN, and a stop time of at least zero when
  \<open>save_first_timestep\<close> is set: after any number of calls none of which raised, a
  pending \<open>next_output_time\<close> is at most the stop time.
\<close>

lemma next_within_stop:
  "times_iter w = Iterator f i \<Longrightarrow> \<forall>j. f j \<noteq> Yield (PyFloat NaN) \<Longrightarrow>
   \<not> is_nan (clock_stop w) \<Longrightarrow>
   save_first_timestep w \<longrightarrow> fle (Finite 0) (clock_stop w) \<Longrightarrow>
   \<forall>t. next_output_time w = Some t \<longrightarrow> fle t (clock_stop w) \<Longrightarrow>
   advances n w = (Inr rs, w') \<Longrightarrow>
     \<forall>t. next_output_time w' = Some t \<longrightarrow> fle t (clock_stop w)"
proof (induction n arbitrary: w i rs)
  case 0
  then show ?case by simp
next
  case (Suc n)
  from Suc.prems(6) obtain r w1 rs' where
    step: "advance_iter w = (Inr r, w1)" and rest: "advances n w1 = (Inr rs', w')"
    by (auto split: prod.splits sum.splits)
  from advance_frame [OF step Suc.prems(1)] obtain j where
    w1: "times_iter w1 = Iterator f j" "clock_stop w1 = clock_stop w"
    "save_first_timestep w1 \<longrightarrow> save_first_timestep w" "next_output_time w1 = r"
    by blast
  have "\<forall>t. next_output_time w1 = Some t \<longrightarrow> fle t (clock_stop w1)"
    using advance_le [OF _ Suc.prems(1-4)] step w1 by auto
  from Suc.IH [OF w1(1) Suc.prems(2) _ _ this rest] Suc.prems(3,4) w1 show ?case
    by auto
qed

text \<open>
  C2. The code breaks the claim's bound \<open>next_output_time \<le> stop_time\<close>, which is also
  the code's own assertion at the start of \<open>advance_iter\<close>. The branch of
  \<open>save_first_timestep\<close> returns \<open>0.0\<close> without a look at the stop time: with a stop
  time of \<open>-1.0\<close> the first call returns \<open>0.0\<close> and stores it as
  \<open>next_output_time\<close>, above the stop time. A NaN from the source passes both
  comparisons of the resolution algorithm and is returned and stored likewise; after
  \<open>1.0\<close> it also makes the returned sequence \<open>1.0, NaN\<close>, which is not
  non-decreasing. In each case the call itself raises nothing, and the following call fails
  the assertion.
\<close>

theorem stop_bound_violated:
  "fst (advance_iter (scheduler [] (Finite (- 1)) True True)) = Inr (Some (Finite 0)) \<and>
   next_output_time (snd (advance_iter (scheduler [] (Finite (- 1)) True True))) =
     Some (Finite 0) \<and>
   \<not> fle (Finite 0) (clock_stop (snd (advance_iter (scheduler [] (Finite (- 1)) True True)))) \<and>
   fst (advances 2 (scheduler [] (Finite (- 1)) True True)) = Inl (AssertionError []) \<and>
   fst (advances 2 (scheduler [PyFloat (Finite 1), PyFloat NaN] (Finite 10) False True)) =
     Inr [Some (Finite 1), Some NaN] \<and>
   next_output_time
     (snd (advances 2 (scheduler [PyFloat (Finite 1), PyFloat NaN] (Finite 10) False True))) =
     Some NaN \<and>
   \<not> fle (Finite 1) NaN \<and> \<not> fle NaN (Finite 10) \<and>
   fst (advances 3 (scheduler [PyFloat (Finite 1), PyFloat NaN] (Finite 10) False True)) =
     Inl (AssertionError [])"
  by (simp add: scheduler_def init_def register_times_iter_def advance_iter_def save_next_def
        advance_iter_recursive.simps iter_of_def next_default_def fgt_def fge_def Let_def
        eval_nat_numeral)


end
